theory Spec2Isabelle
  imports Complex_Main
begin

section \<open>Values and errors\<close>

text \<open>
  The driver's setters take an untyped Python number. A Python \<open>int\<close> or finite
  \<open>float\<close> is modelled by the real number it denotes; the three non-finite floats are
  kept apart, because Python's comparisons treat them specially: every ordering
  comparison with \<open>nan\<close> is \<open>False\<close>.
\<close>

datatype pynum = Fin real | PosInf | NegInf | NaN

text \<open>Python's \<open>a < b\<close> on numbers.\<close>

fun py_lt :: "pynum \<Rightarrow> pynum \<Rightarrow> bool" where
  "py_lt NaN b = False"
| "py_lt a NaN = False"
| "py_lt (Fin a) (Fin b) = (a < b)"
| "py_lt (Fin a) PosInf = True"
| "py_lt (Fin a) NegInf = False"
| "py_lt PosInf b = False"
| "py_lt NegInf NegInf = False"
| "py_lt NegInf b = True"

text \<open>Python's \<open>a > b\<close> and \<open>a <= b\<close> on numbers.\<close>

definition py_gt :: "pynum \<Rightarrow> pynum \<Rightarrow> bool" where
  "py_gt a b = py_lt b a"

fun py_le :: "pynum \<Rightarrow> pynum \<Rightarrow> bool" where
  "py_le NaN b = False"
| "py_le a NaN = False"
| "py_le a b = (\<not> py_lt b a)"

datatype error = ValueError string | IndexError string | KeyError string | OtherError string

section \<open>The signal generator driver (sg.py)\<close>

text \<open>
  The fields \<open>attr_amplitude\<close> and \<open>attr_frequency\<close> are the attributes
  \<open>self._amplitude\<close> and \<open>self._frequency\<close>. A method takes the object and returns
  what it returns or raises, together with the object as the method leaves it. The
  calls to \<open>logger.info\<close> write to the module's logger and do not touch the object.
\<close>

record SigGen =
  output_en :: bool
  attr_amplitude :: pynum
  attr_frequency :: pynum

definition SigGen_init :: SigGen where
  "SigGen_init = \<lparr>output_en = False, attr_amplitude = Fin 0.0, attr_frequency = Fin 100000\<rparr>"

definition frequency :: "SigGen \<Rightarrow> (error + pynum) \<times> SigGen" where
  "frequency self = (Inr (attr_frequency self), self)"

definition set_frequency :: "pynum \<Rightarrow> SigGen \<Rightarrow> (error + unit) \<times> SigGen" where
  "set_frequency v self =
     (if py_lt v (Fin 100000) \<or> py_gt v (Fin 10000000000)
      then (Inl (ValueError ''Frequency must be in range [100kHz, 10GHz].''), self)
      else (Inr (), self\<lparr>attr_frequency := v\<rparr>))"

definition amplitude :: "SigGen \<Rightarrow> (error + pynum) \<times> SigGen" where
  "amplitude self = (Inr (attr_amplitude self), self)"

definition set_amplitude :: "pynum \<Rightarrow> SigGen \<Rightarrow> (error + unit) \<times> SigGen" where
  "set_amplitude v self =
     (if py_lt v (Fin (-30)) \<or> py_gt v (Fin 10)
      then (Inl (ValueError ''Amplitude must be in range [-30dBm, 10dBm].''), self)
      else (Inr (), self\<lparr>attr_amplitude := v\<rparr>))"

definition calibrate :: "SigGen \<Rightarrow> (error + unit) \<times> SigGen" where
  "calibrate self = (Inr (), self)"

text \<open>A call of one of the five methods, and the object after such a call.\<close>

datatype siggen_call =
  CallSetFrequency pynum
| CallSetAmplitude pynum
| CallFrequency
| CallAmplitude
| CallCalibrate

fun after_call :: "siggen_call \<Rightarrow> SigGen \<Rightarrow> SigGen" where
  "after_call (CallSetFrequency v) self = snd (set_frequency v self)"
| "after_call (CallSetAmplitude v) self = snd (set_amplitude v self)"
| "after_call CallFrequency self = snd (frequency self)"
| "after_call CallAmplitude self = snd (amplitude self)"
| "after_call CallCalibrate self = snd (calibrate self)"

fun after_calls :: "siggen_call list \<Rightarrow> SigGen \<Rightarrow> SigGen" where
  "after_calls [] self = self"
| "after_calls (c # cs) self = after_calls cs (after_call c self)"

definition amplitude_in_range :: "SigGen \<Rightarrow> bool" where
  "amplitude_in_range self =
     (py_le (Fin (-30)) (attr_amplitude self) \<and> py_le (attr_amplitude self) (Fin 10))"

definition frequency_in_range :: "SigGen \<Rightarrow> bool" where
  "frequency_in_range self =
     (py_le (Fin 100000) (attr_frequency self) \<and> py_le (attr_frequency self) (Fin 10000000000))"

fun call_arg_is_nan :: "siggen_call \<Rightarrow> bool" where
  "call_arg_is_nan (CallSetFrequency v) = (v = NaN)"
| "call_arg_is_nan (CallSetAmplitude v) = (v = NaN)"
| "call_arg_is_nan c = False"

section \<open>Arrays (numpy)\<close>

text \<open>
  The sweep and the plot use four functions of numpy, an external library. They are
  modelled after numpy's implementation, on real numbers: a finite float stands for
  the real it denotes, and arithmetic is exact (no rounding, no overflow). A one
  dimensional array is a list, a two dimensional array is the list of its rows.

  \<open>np.linspace(start, stop, num)\<close> raises for a negative \<open>num\<close>. Otherwise it takes
  \<open>div = num - 1\<close>, fills \<open>arange(0, num) * step + start\<close> with
  \<open>step = (stop - start) / div\<close> when \<open>div > 0\<close> (and \<open>arange(0, num) * (stop - start) + start\<close>
  otherwise), and when \<open>num > 1\<close> overwrites the last sample with \<open>stop\<close>.
\<close>

definition np_linspace :: "real \<Rightarrow> real \<Rightarrow> int \<Rightarrow> error + real list" where
  "np_linspace start stop num =
     (if num < 0 then Inl (ValueError ''Number of samples must be non-negative.'')
      else
        let n = nat num;
            dv = num - 1;
            delta = stop - start;
            y = (if dv > 0
                 then map (\<lambda>i. real i * (delta / real_of_int dv) + start) [0..<n]
                 else map (\<lambda>i. real i * delta + start) [0..<n])
        in Inr (if num > 1 then y[n - 1 := stop] else y))"

definition np_zeros :: "int \<Rightarrow> error + real list" where
  "np_zeros num =
     (if num < 0 then Inl (ValueError ''negative dimensions are not allowed'')
      else Inr (replicate (nat num) 0))"

text \<open>
  \<open>np.stack(arrays)\<close> raises on an empty sequence and on arrays of different shapes;
  otherwise the result holds the arrays along a new first axis. The shape of an array
  is given by \<open>shape\<close>: the length of a one dimensional array, the row lengths of a
  two dimensional one.
\<close>

definition np_stack :: "('a \<Rightarrow> nat list) \<Rightarrow> 'a list \<Rightarrow> error + 'a list" where
  "np_stack shape arrays =
     (case arrays of
        [] \<Rightarrow> Inl (ValueError ''need at least one array to stack'')
      | a # rest \<Rightarrow>
          if list_all (\<lambda>b. shape b = shape a) rest then Inr arrays
          else Inl (ValueError ''all input arrays must have the same shape''))"

definition shape1 :: "real list \<Rightarrow> nat list" where
  "shape1 xs = [length xs]"




section \<open>The measurement routine (spin_measurements.py)\<close>

text \<open>
  \<open>gw.drv\<close> is a proxy for a driver object on the instrument server. The driver is a
  parameter: four methods on a driver state \<open>'s\<close>, each returning or raising and
  leaving a new driver state. The gateway keeps the driver state and the sequence of
  commands it has sent, each with the reply it got.
\<close>

record 's driver =
  drv_set_amplitude :: "pynum \<Rightarrow> 's \<Rightarrow> (error + unit) \<times> 's"
  drv_set_output_en :: "bool \<Rightarrow> 's \<Rightarrow> (error + unit) \<times> 's"
  drv_set_frequency :: "pynum \<Rightarrow> 's \<Rightarrow> (error + unit) \<times> 's"
  drv_cnts :: "real \<Rightarrow> 's \<Rightarrow> (error + real) \<times> 's"

datatype command = SetAmplitude pynum | SetOutputEn bool | SetFrequency pynum | Cnts real

datatype reply = Raised error | Returned | Counted real

record 's gateway =
  drv :: 's
  calls :: "(command \<times> reply) list"

definition gw_set_amplitude :: "'s driver \<Rightarrow> pynum \<Rightarrow> 's gateway \<Rightarrow> (error + unit) \<times> 's gateway" where
  "gw_set_amplitude d v g =
     (case drv_set_amplitude d v (drv g) of
        (Inl e, s) \<Rightarrow> (Inl e, \<lparr>drv = s, calls = calls g @ [(SetAmplitude v, Raised e)]\<rparr>)
      | (Inr u, s) \<Rightarrow> (Inr (), \<lparr>drv = s, calls = calls g @ [(SetAmplitude v, Returned)]\<rparr>))"

definition gw_set_output_en :: "'s driver \<Rightarrow> bool \<Rightarrow> 's gateway \<Rightarrow> (error + unit) \<times> 's gateway" where
  "gw_set_output_en d b g =
     (case drv_set_output_en d b (drv g) of
        (Inl e, s) \<Rightarrow> (Inl e, \<lparr>drv = s, calls = calls g @ [(SetOutputEn b, Raised e)]\<rparr>)
      | (Inr u, s) \<Rightarrow> (Inr (), \<lparr>drv = s, calls = calls g @ [(SetOutputEn b, Returned)]\<rparr>))"

definition gw_set_frequency :: "'s driver \<Rightarrow> pynum \<Rightarrow> 's gateway \<Rightarrow> (error + unit) \<times> 's gateway" where
  "gw_set_frequency d v g =
     (case drv_set_frequency d v (drv g) of
        (Inl e, s) \<Rightarrow> (Inl e, \<lparr>drv = s, calls = calls g @ [(SetFrequency v, Raised e)]\<rparr>)
      | (Inr u, s) \<Rightarrow> (Inr (), \<lparr>drv = s, calls = calls g @ [(SetFrequency v, Returned)]\<rparr>))"

definition gw_cnts :: "'s driver \<Rightarrow> real \<Rightarrow> 's gateway \<Rightarrow> (error + real) \<times> 's gateway" where
  "gw_cnts d t g =
     (case drv_cnts d t (drv g) of
        (Inl e, s) \<Rightarrow> (Inl e, \<lparr>drv = s, calls = calls g @ [(Cnts t, Raised e)]\<rparr>)
      | (Inr c, s) \<Rightarrow> (Inr c, \<lparr>drv = s, calls = calls g @ [(Cnts t, Counted c)]\<rparr>))"

text \<open>Python values, for the record that is pushed to the data source.\<close>

datatype pyval =
  PyFloat real
| PyInt int
| PyStr string
| PyArray "real list list"
| PyList "pyval list"
| PyDict "(string \<times> pyval) list"

fun dict_keys :: "pyval \<Rightarrow> string list" where
  "dict_keys (PyDict kvs) = map fst kvs"
| "dict_keys v = []"

fun dict_get :: "pyval \<Rightarrow> string \<Rightarrow> pyval option" where
  "dict_get (PyDict kvs) k = map_of kvs k"
| "dict_get v k = None"

text \<open>
  What the body of the \<open>with\<close> statement works on: the gateway, the data source
  \<open>odmr_data\<close> opened under the name \<open>dataset\<close>, and the list \<open>data['mydata']\<close>. The data
  source is external; \<open>push\<close> sends the record as it is at the time of the call, so
  \<open>pushed\<close> is the sequence of records sent, each a snapshot.
\<close>

record 's session =
  gw :: "'s gateway"
  channel :: string
  pushed :: "pyval list"
  mydata :: "real list list list"

text \<open>The dictionary literal of lines 55 to 60, with \<open>data['mydata']\<close> as it is then.\<close>

definition sweep_record :: "real \<Rightarrow> real \<Rightarrow> int \<Rightarrow> int \<Rightarrow> real list list list \<Rightarrow> pyval" where
  "sweep_record start stop num_points iterations hist =
     PyDict [
       (''params'', PyDict [(''start'', PyFloat start), (''stop'', PyFloat stop),
                           (''num_points'', PyInt num_points), (''iterations'', PyInt iterations)]),
       (''title'', PyStr ''Optically Detected Magnetic Resonance''),
       (''xlabel'', PyStr ''Frequency (GHz)''),
       (''ylabel'', PyStr ''Counts''),
       (''datasets'', PyDict [(''mydata'', PyList (map PyArray hist))])]"

text \<open>
  The inner loop, lines 47 to 51: for each \<open>(f, freq)\<close> of \<open>enumerate(frequencies)\<close>, set
  the frequency, then store the count at index \<open>f\<close> of \<open>counts\<close>.
\<close>

fun sweep_frequencies ::
  "'s driver \<Rightarrow> (nat \<times> real) list \<Rightarrow> real list \<Rightarrow> 's gateway \<Rightarrow> (error + real list) \<times> 's gateway" where
  "sweep_frequencies d [] counts g = (Inr counts, g)"
| "sweep_frequencies d ((f, freq) # rest) counts g =
     (case gw_set_frequency d (Fin freq) g of
        (Inl e, g1) \<Rightarrow> (Inl e, g1)
      | (Inr u, g1) \<Rightarrow>
          (case gw_cnts d 0.01 g1 of
             (Inl e, g2) \<Rightarrow> (Inl e, g2)
           | (Inr c, g2) \<Rightarrow> sweep_frequencies d rest (counts[f := c]) g2))"

text \<open>One iteration of the outer loop, lines 41 to 60.\<close>

definition sweep_iteration ::
  "'s driver \<Rightarrow> real \<Rightarrow> real \<Rightarrow> int \<Rightarrow> int \<Rightarrow> 's session \<Rightarrow> (error + unit) \<times> 's session" where
  "sweep_iteration d start stop num_points iterations ss =
     (case np_linspace start stop num_points of
        Inl e \<Rightarrow> (Inl e, ss)
      | Inr frequencies \<Rightarrow>
          (case np_zeros num_points of
             Inl e \<Rightarrow> (Inl e, ss)
           | Inr zeros \<Rightarrow>
               (case sweep_frequencies d (List.enumerate 0 frequencies) zeros (gw ss) of
                  (Inl e, g) \<Rightarrow> (Inl e, ss\<lparr>gw := g\<rparr>)
                | (Inr counts, g) \<Rightarrow>
                    (case np_stack shape1 [map (\<lambda>x. x / 1000000000) frequencies, counts] of
                       Inl e \<Rightarrow> (Inl e, ss\<lparr>gw := g\<rparr>)
                     | Inr arr \<Rightarrow>
                         (let hist = mydata ss @ [arr]
                          in (Inr (),
                              ss\<lparr>gw := g, mydata := hist,
                                 pushed := pushed ss
                                   @ [sweep_record start stop num_points iterations hist]\<rparr>))))))"

text \<open>The outer loop \<open>for i in range(iterations)\<close>, with the number of iterations left.\<close>

fun sweep_loop ::
  "'s driver \<Rightarrow> real \<Rightarrow> real \<Rightarrow> int \<Rightarrow> int \<Rightarrow> nat \<Rightarrow> 's session \<Rightarrow> (error + unit) \<times> 's session" where
  "sweep_loop d start stop num_points iterations 0 ss = (Inr (), ss)"
| "sweep_loop d start stop num_points iterations (Suc n) ss =
     (case sweep_iteration d start stop num_points iterations ss of
        (Inl e, ss1) \<Rightarrow> (Inl e, ss1)
      | (Inr u, ss1) \<Rightarrow> sweep_loop d start stop num_points iterations n ss1)"

text \<open>
  Lines 34 to 38: the gateway and the data source are opened, the amplitude is set and
  the output enabled, and \<open>data['mydata']\<close> starts empty. \<open>s0\<close> is the state of the
  driver on the instrument server when the gateway connects.
\<close>

definition odmr_setup :: "'s driver \<Rightarrow> 's \<Rightarrow> string \<Rightarrow> (error + unit) \<times> 's session" where
  "odmr_setup d s0 dataset =
     (let ss = \<lparr>gw = \<lparr>drv = s0, calls = []\<rparr>, channel = dataset, pushed = [], mydata = []\<rparr>
      in case gw_set_amplitude d (Fin 6.5) (gw ss) of
           (Inl e, g1) \<Rightarrow> (Inl e, ss\<lparr>gw := g1\<rparr>)
         | (Inr u, g1) \<Rightarrow>
             (case gw_set_output_en d True g1 of
                (Inl e, g2) \<Rightarrow> (Inl e, ss\<lparr>gw := g2\<rparr>)
              | (Inr u, g2) \<Rightarrow> (Inr (), ss\<lparr>gw := g2\<rparr>)))"

definition odmr_sweep ::
  "'s driver \<Rightarrow> 's \<Rightarrow> string \<Rightarrow> real \<Rightarrow> real \<Rightarrow> int \<Rightarrow> int \<Rightarrow> (error + unit) \<times> 's session" where
  "odmr_sweep d s0 dataset start stop num_points iterations =
     (case odmr_setup d s0 dataset of
        (Inl e, ss) \<Rightarrow> (Inl e, ss)
      | (Inr u, ss) \<Rightarrow> sweep_loop d start stop num_points iterations (nat iterations) ss)"

text \<open>The commands sent, without their replies.\<close>

definition commands :: "'s session \<Rightarrow> command list" where
  "commands ss = map fst (calls (gw ss))"

fun is_loop_command :: "command \<Rightarrow> bool" where
  "is_loop_command (SetFrequency v) = True"
| "is_loop_command (Cnts t) = True"
| "is_loop_command c = False"

fun is_set_amplitude :: "command \<Rightarrow> bool" where
  "is_set_amplitude (SetAmplitude v) = True"
| "is_set_amplitude c = False"

fun is_set_output_en :: "command \<Rightarrow> bool" where
  "is_set_output_en (SetOutputEn b) = True"
| "is_set_output_en c = False"

fun is_raised :: "reply \<Rightarrow> bool" where
  "is_raised (Raised e) = True"
| "is_raised r = False"

text \<open>The records pushed once \<open>hist\<close> has been accumulated: one for each prefix.\<close>

definition records_of :: "real \<Rightarrow> real \<Rightarrow> int \<Rightarrow> int \<Rightarrow> real list list list \<Rightarrow> pyval list" where
  "records_of start stop num_points iterations hist =
     map (\<lambda>k. sweep_record start stop num_points iterations (take (Suc k) hist)) [0..<length hist]"

text \<open>
  A sequence of calls is clean when no reply is a raise. \<open>trace_of r new\<close> relates the
  outcome \<open>r\<close> of a piece of the routine to the calls \<open>new\<close> it made: a piece that
  returns made clean calls; a piece that raises \<open>e\<close> made clean calls, or clean calls
  followed by one call that raised \<open>e\<close>.
\<close>

definition clean :: "(command \<times> reply) list \<Rightarrow> bool" where
  "clean cs = list_all (\<lambda>cr. \<not> is_raised (snd cr)) cs"

definition trace_of :: "error + 'a \<Rightarrow> (command \<times> reply) list \<Rightarrow> bool" where
  "trace_of r new =
     (case r of
        Inr x \<Rightarrow> clean new
      | Inl e \<Rightarrow> clean new \<or> (\<exists>c pre. new = pre @ [(c, Raised e)] \<and> clean pre))"


text \<open>
  What the loop keeps true of the history and of the pushed records: one record for
  each prefix of the history, and every array of two rows of \<open>num_points\<close> values, the
  first row the frequencies in GHz.
\<close>

definition history_ok :: "real \<Rightarrow> real \<Rightarrow> int \<Rightarrow> int \<Rightarrow> 's session \<Rightarrow> bool" where
  "history_ok start stop num_points iterations ss =
     (pushed ss = records_of start stop num_points iterations (mydata ss)
      \<and> (\<forall>a \<in> set (mydata ss). length a = 2 \<and> (\<forall>row \<in> set a. length row = nat num_points)
            \<and> (\<exists>fs. np_linspace start stop num_points = Inr fs
                  \<and> a ! 0 = map (\<lambda>x. x / 1000000000) fs)))"


section \<open>The plot widget (gui_elements.py)\<close>




section \<open>Drivers for the examples\<close>

text \<open>A driver that accepts every setting and counts \<open>c\<close> at every frequency.\<close>

definition constant_driver :: "real \<Rightarrow> unit driver" where
  "constant_driver c =
     \<lparr>drv_set_amplitude = (\<lambda>v s. (Inr (), s)),
      drv_set_output_en = (\<lambda>b s. (Inr (), s)),
      drv_set_frequency = (\<lambda>v s. (Inr (), s)),
      drv_cnts = (\<lambda>t s. (Inr c, s))\<rparr>"

text \<open>
  A driver on a \<open>SigGen\<close>: the validated setters of \<open>sg.py\<close>, \<open>set_output_en\<close> storing the
  flag, and a constant count.
\<close>

definition siggen_driver :: "real \<Rightarrow> SigGen driver" where
  "siggen_driver c =
     \<lparr>drv_set_amplitude = set_amplitude,
      drv_set_output_en = (\<lambda>b s. (Inr (), s\<lparr>output_en := b\<rparr>)),
      drv_set_frequency = set_frequency,
      drv_cnts = (\<lambda>t s. (Inr c, s))\<rparr>"

text \<open>
  A driver that serves \<open>n\<close> commands and raises on every later one; its state is the
  number of commands served. The count it returns is that number.
\<close>

definition serve :: "nat \<Rightarrow> 'a \<Rightarrow> nat \<Rightarrow> (error + 'a) \<times> nat" where
  "serve n x s = (if s < n then (Inr x, Suc s) else (Inl (OtherError ''instrument not responding''), s))"

definition budget_driver :: "nat \<Rightarrow> nat driver" where
  "budget_driver n =
     \<lparr>drv_set_amplitude = (\<lambda>v s. serve n () s),
      drv_set_output_en = (\<lambda>b s. serve n () s),
      drv_set_frequency = (\<lambda>v s. serve n () s),
      drv_cnts = (\<lambda>t s. serve n (real s) s)\<rparr>"

section \<open>Properties of the driver\<close>

lemma raises_set_frequency:
  "(\<exists>e. fst (set_frequency v self) = Inl e) = (py_lt v (Fin 100000) \<or> py_gt v (Fin 10000000000))"
  by (simp add: set_frequency_def)

lemma raises_set_amplitude:
  "(\<exists>e. fst (set_amplitude v self) = Inl e) = (py_lt v (Fin (-30)) \<or> py_gt v (Fin 10))"
  by (simp add: set_amplitude_def)

text \<open>
  C2. \<open>set_frequency(v)\<close> raises exactly when \<open>v < 100e3 or v > 10e9\<close>. When it raises,
  the object, and so the stored frequency, is what it was before the call. When it
  returns, the stored frequency is \<open>v\<close>.
\<close>

theorem set_frequency_validates:
  "((\<exists>e. fst (set_frequency v self) = Inl e) = (py_lt v (Fin 100000) \<or> py_gt v (Fin 10000000000)))
   \<and> ((\<exists>e. fst (set_frequency v self) = Inl e) \<longrightarrow>
        snd (set_frequency v self) = self
        \<and> fst (frequency (snd (set_frequency v self))) = fst (frequency self))
   \<and> (fst (set_frequency v self) = Inr () \<longrightarrow>
        fst (frequency (snd (set_frequency v self))) = Inr v)
   \<and> ((\<exists>e. fst (set_frequency v self) = Inl e) \<or> fst (set_frequency v self) = Inr ())"
  by (simp add: set_frequency_def frequency_def)

theorem set_frequency_validates_witness:
  "fst (set_frequency (Fin 99999) SigGen_init) = Inl (ValueError ''Frequency must be in range [100kHz, 10GHz].'')
   \<and> fst (frequency (snd (set_frequency (Fin 99999) SigGen_init))) = Inr (Fin 100000)
   \<and> fst (set_frequency (Fin 10000000001) (snd (set_frequency (Fin 3000000000) SigGen_init)))
       = Inl (ValueError ''Frequency must be in range [100kHz, 10GHz].'')
   \<and> fst (frequency (snd (set_frequency (Fin 10000000001) (snd (set_frequency (Fin 3000000000) SigGen_init)))))
       = Inr (Fin 3000000000)
   \<and> fst (set_frequency (Fin 10000000000) SigGen_init) = Inr ()
   \<and> fst (frequency (snd (set_frequency (Fin 10000000000) SigGen_init))) = Inr (Fin 10000000000)"
  using set_frequency_validates [of "Fin 99999" SigGen_init]
    set_frequency_validates [of "Fin 10000000001" "snd (set_frequency (Fin 3000000000) SigGen_init)"]
    set_frequency_validates [of "Fin 10000000000" SigGen_init]
  by (simp add: set_frequency_def frequency_def SigGen_init_def py_gt_def)

text \<open>
  C3. \<open>set_amplitude(v)\<close> raises exactly when \<open>v < -30 or v > 10\<close>. When it raises, the
  object, and so the stored amplitude, is what it was before the call. When it returns,
  the stored amplitude is \<open>v\<close>.
\<close>

theorem set_amplitude_validates:
  "((\<exists>e. fst (set_amplitude v self) = Inl e) = (py_lt v (Fin (-30)) \<or> py_gt v (Fin 10)))
   \<and> ((\<exists>e. fst (set_amplitude v self) = Inl e) \<longrightarrow>
        snd (set_amplitude v self) = self
        \<and> fst (amplitude (snd (set_amplitude v self))) = fst (amplitude self))
   \<and> (fst (set_amplitude v self) = Inr () \<longrightarrow>
        fst (amplitude (snd (set_amplitude v self))) = Inr v)
   \<and> ((\<exists>e. fst (set_amplitude v self) = Inl e) \<or> fst (set_amplitude v self) = Inr ())"
  by (simp add: set_amplitude_def amplitude_def)

theorem set_amplitude_validates_witness:
  "fst (set_amplitude (Fin (-31)) SigGen_init) = Inl (ValueError ''Amplitude must be in range [-30dBm, 10dBm].'')
   \<and> fst (amplitude (snd (set_amplitude (Fin (-31)) SigGen_init))) = Inr (Fin 0)
   \<and> fst (set_amplitude (Fin 10.5) (snd (set_amplitude (Fin 6.5) SigGen_init)))
       = Inl (ValueError ''Amplitude must be in range [-30dBm, 10dBm].'')
   \<and> fst (amplitude (snd (set_amplitude (Fin 10.5) (snd (set_amplitude (Fin 6.5) SigGen_init)))))
       = Inr (Fin 6.5)
   \<and> fst (set_amplitude (Fin (-30)) SigGen_init) = Inr ()
   \<and> fst (amplitude (snd (set_amplitude (Fin (-30)) SigGen_init))) = Inr (Fin (-30))"
  using set_amplitude_validates [of "Fin (-31)" SigGen_init]
    set_amplitude_validates [of "Fin 10.5" "snd (set_amplitude (Fin 6.5) SigGen_init)"]
    set_amplitude_validates [of "Fin (-30)" SigGen_init]
  by (simp add: set_amplitude_def amplitude_def SigGen_init_def py_gt_def)

lemma after_call_in_range:
  assumes "\<not> call_arg_is_nan c" and "amplitude_in_range self" and "frequency_in_range self"
  shows "amplitude_in_range (after_call c self) \<and> frequency_in_range (after_call c self)"
proof (cases c)
  case (CallSetFrequency v)
  with assms show ?thesis
    by (cases v) (auto simp: set_frequency_def py_gt_def amplitude_in_range_def frequency_in_range_def)
next
  case (CallSetAmplitude v)
  with assms show ?thesis
    by (cases v) (auto simp: set_amplitude_def py_gt_def amplitude_in_range_def frequency_in_range_def)
qed (use assms in \<open>simp_all add: frequency_def amplitude_def calibrate_def\<close>)

lemma after_calls_in_range:
  assumes "\<forall>c \<in> set cs. \<not> call_arg_is_nan c"
    and "amplitude_in_range self" and "frequency_in_range self"
  shows "amplitude_in_range (after_calls cs self) \<and> frequency_in_range (after_calls cs self)"
  using assms
proof (induction cs arbitrary: self)
  case Nil
  then show ?case by simp
next
  case (Cons c cs)
  have "amplitude_in_range (after_call c self) \<and> frequency_in_range (after_call c self)"
    using Cons.prems by (intro after_call_in_range) simp_all
  with Cons show ?case by simp
qed

lemma SigGen_init_in_range:
  "amplitude_in_range SigGen_init \<and> frequency_in_range SigGen_init"
  by (simp add: SigGen_init_def amplitude_in_range_def frequency_in_range_def)

text \<open>
  Every sequence of calls whose arguments are not \<open>nan\<close> keeps both stored values in
  range, from the fresh object on.
\<close>

lemma siggen_range_invariant_without_nan:
  "\<forall>c \<in> set cs. \<not> call_arg_is_nan c \<Longrightarrow>
   amplitude_in_range (after_calls cs SigGen_init) \<and> frequency_in_range (after_calls cs SigGen_init)"
  using after_calls_in_range SigGen_init_in_range by blast

text \<open>
  C9. A fresh \<open>SigGen\<close> has \<open>output_en = False\<close>, amplitude \<open>0.0\<close> and frequency \<open>100e3\<close>,
  both in range. The range invariant does not survive every call: \<open>set_frequency(nan)\<close>
  and \<open>set_amplitude(nan)\<close> pass the test \<open>value < lo or value > hi\<close>, since both
  comparisons are false on \<open>nan\<close>, and the stored value is then \<open>nan\<close>, which is not in
  the range.
\<close>

theorem siggen_nan_breaks_range:
  "output_en SigGen_init = False
   \<and> attr_amplitude SigGen_init = Fin 0.0
   \<and> attr_frequency SigGen_init = Fin 100000
   \<and> amplitude_in_range SigGen_init \<and> frequency_in_range SigGen_init
   \<and> fst (set_frequency NaN SigGen_init) = Inr ()
   \<and> attr_frequency (after_calls [CallSetFrequency NaN] SigGen_init) = NaN
   \<and> \<not> frequency_in_range (after_calls [CallSetFrequency NaN] SigGen_init)
   \<and> fst (set_amplitude NaN SigGen_init) = Inr ()
   \<and> attr_amplitude (after_calls [CallSetAmplitude NaN] SigGen_init) = NaN
   \<and> \<not> amplitude_in_range (after_calls [CallSetAmplitude NaN] SigGen_init)"
  by (simp add: SigGen_init_def set_frequency_def set_amplitude_def py_gt_def
      amplitude_in_range_def frequency_in_range_def)

section \<open>The frequency sequence\<close>







section \<open>The calls of the measurement routine\<close>

subsection \<open>The gateway\<close>

lemma gw_set_amplitude_calls:
  assumes "gw_set_amplitude d v g = (r, g')"
  shows "\<exists>rep. calls g' = calls g @ [(SetAmplitude v, rep)] \<and> trace_of r [(SetAmplitude v, rep)]
     \<and> (r = Inr () \<longrightarrow> rep = Returned) \<and> (\<forall>e. r = Inl e \<longrightarrow> rep = Raised e)
     \<and> fst (drv_set_amplitude d v (drv g)) = r"
  using assms
  by (auto simp: gw_set_amplitude_def trace_of_def clean_def split: prod.splits sum.splits)

lemma gw_set_output_en_calls:
  assumes "gw_set_output_en d v g = (r, g')"
  shows "\<exists>rep. calls g' = calls g @ [(SetOutputEn v, rep)] \<and> trace_of r [(SetOutputEn v, rep)]
     \<and> (r = Inr () \<longrightarrow> rep = Returned) \<and> (\<forall>e. r = Inl e \<longrightarrow> rep = Raised e)"
  using assms
  by (auto simp: gw_set_output_en_def trace_of_def clean_def split: prod.splits sum.splits)

lemma gw_set_frequency_calls:
  assumes "gw_set_frequency d v g = (r, g')"
  shows "\<exists>rep. calls g' = calls g @ [(SetFrequency v, rep)] \<and> trace_of r [(SetFrequency v, rep)]
     \<and> (r = Inr () \<longrightarrow> rep = Returned) \<and> (\<forall>e. r = Inl e \<longrightarrow> rep = Raised e)"
  using assms
  by (auto simp: gw_set_frequency_def trace_of_def clean_def split: prod.splits sum.splits)

lemma gw_cnts_calls:
  assumes "gw_cnts d t g = (r, g')"
  shows "\<exists>rep. calls g' = calls g @ [(Cnts t, rep)] \<and> trace_of r [(Cnts t, rep)]
     \<and> (\<forall>c. r = Inr c \<longrightarrow> rep = Counted c) \<and> (\<forall>e. r = Inl e \<longrightarrow> rep = Raised e)"
  using assms
  by (auto simp: gw_cnts_def trace_of_def clean_def split: prod.splits sum.splits)

lemma clean_append [simp]: "clean (a @ b) = (clean a \<and> clean b)"
  by (simp add: clean_def)

lemma clean_Nil [simp]: "clean []"
  by (simp add: clean_def)

lemma trace_of_Inr [simp]: "trace_of (Inr x) new = clean new"
  by (simp add: trace_of_def)

lemma trace_of_prepend:
  assumes "clean a" and "trace_of r b"
  shows "trace_of r (a @ b)"
proof (cases r)
  case (Inl e)
  with assms consider "clean b" | c pre where "b = pre @ [(c, Raised e)]" "clean pre"
    by (auto simp: trace_of_def)
  then show ?thesis
  proof cases
    case 1
    with assms Inl show ?thesis by (simp add: trace_of_def)
  next
    case 2
    then have "a @ b = (a @ pre) @ [(c, Raised e)] \<and> clean (a @ pre)"
      using assms by simp
    then show ?thesis unfolding trace_of_def Inl by (simp del: append_assoc)
  qed
next
  case (Inr x)
  with assms show ?thesis by simp
qed

lemma trace_of_retype:
  "trace_of (Inl e :: error + 'a) new = trace_of (Inl e :: error + 'b) new"
  by (simp add: trace_of_def)

text \<open>A raise is the last call of a trace and is what the run returns.\<close>

lemma trace_of_raise_last:
  assumes "trace_of r cs" and "i < length cs" and "snd (cs ! i) = Raised e"
  shows "r = Inl e \<and> Suc i = length cs"
proof -
  have nc: "\<not> clean cs"
    using assms(2,3) by (auto simp: clean_def list_all_length)
  with assms(1) obtain e' c pre where r: "r = Inl e'" and cs: "cs = pre @ [(c, Raised e')]" and pre: "clean pre"
    by (cases r) (auto simp: trace_of_def)
  have "\<not> i < length pre"
  proof
    assume "i < length pre"
    then have "cs ! i = pre ! i" using cs by (simp add: nth_append)
    with pre \<open>i < length pre\<close> assms(3) show False
      by (auto simp: clean_def list_all_length)
  qed
  with assms(2) cs have i: "i = length pre" by simp
  with cs assms(3) have "e' = e" by simp
  with r i cs show ?thesis by simp
qed

subsection \<open>The inner loop\<close>

lemma sweep_frequencies_calls:
  assumes "sweep_frequencies d fs counts g = (r, g')"
  shows "\<exists>new. calls g' = calls g @ new \<and> list_all is_loop_command (map fst new) \<and> trace_of r new
      \<and> (\<forall>cs. r = Inr cs \<longrightarrow> length cs = length counts)"
  using assms
proof (induction d fs counts g rule: sweep_frequencies.induct)
  case (1 d counts g)
  then show ?case by auto
next
  case (2 d f freq rest counts g)
  obtain r1 g1 where s1: "gw_set_frequency d (Fin freq) g = (r1, g1)" by (cases "gw_set_frequency d (Fin freq) g")
  from gw_set_frequency_calls [OF s1] obtain rep1 where
    c1: "calls g1 = calls g @ [(SetFrequency (Fin freq), rep1)]"
    and t1: "trace_of r1 [(SetFrequency (Fin freq), rep1)]" by blast
  show ?case
  proof (cases r1)
    case (Inl e)
    with s1 "2.prems" have "r = Inl e" "g' = g1" by simp_all
    moreover have "trace_of (Inl e :: error + real list) [(SetFrequency (Fin freq), rep1)]"
      using t1 Inl trace_of_retype by blast
    ultimately show ?thesis using c1 by auto
  next
    case (Inr u)
    obtain r2 g2 where s2: "gw_cnts d 0.01 g1 = (r2, g2)" by (cases "gw_cnts d 0.01 g1")
    from gw_cnts_calls [OF s2] obtain rep2 where
      c2: "calls g2 = calls g1 @ [(Cnts 0.01, rep2)]"
      and t2: "trace_of r2 [(Cnts 0.01, rep2)]" by blast
    have cl1: "clean [(SetFrequency (Fin freq), rep1)]" using t1 Inr by simp
    show ?thesis
    proof (cases r2)
      case (Inl e)
      with s1 s2 Inr "2.prems" have "r = Inl e" "g' = g2" by simp_all
      moreover have "trace_of (Inl e :: error + real list) [(Cnts 0.01, rep2)]"
        using t2 Inl trace_of_retype by blast
      then have "trace_of (Inl e :: error + real list) ([(SetFrequency (Fin freq), rep1)] @ [(Cnts 0.01, rep2)])"
        using cl1 by (intro trace_of_prepend)
      ultimately show ?thesis using c1 c2 by auto
    next
      case (Inr c)
      have cl2: "clean [(Cnts 0.01, rep2)]" using t2 Inr by simp
      have rec: "sweep_frequencies d rest (counts[f := c]) g2 = (r, g')"
        using s1 s2 \<open>r1 = Inr u\<close> Inr "2.prems" by simp
      from "2.IH" [OF s1 [symmetric] _ s2 [symmetric] _ rec] \<open>r1 = Inr u\<close> Inr
      obtain new where n: "calls g' = calls g2 @ new" "list_all is_loop_command (map fst new)"
        "trace_of r new" "\<forall>cs. r = Inr cs \<longrightarrow> length cs = length (counts[f := c])"
        by auto
      have "trace_of r ([(SetFrequency (Fin freq), rep1), (Cnts 0.01, rep2)] @ new)"
        using cl1 cl2 n(3) by (intro trace_of_prepend) (simp_all add: clean_def)
      then show ?thesis using n c1 c2 by auto
    qed
  qed
qed

subsection \<open>The setup\<close>

lemma odmr_setup_result:
  assumes "odmr_setup d s0 dataset = (r, ss)"
  shows "pushed ss = [] \<and> mydata ss = [] \<and> channel ss = dataset
     \<and> trace_of r (calls (gw ss))
     \<and> (\<forall>e. fst (drv_set_amplitude d (Fin 6.5) s0) = Inl e \<longrightarrow>
            r = Inl e \<and> calls (gw ss) = [(SetAmplitude (Fin 6.5), Raised e)])
     \<and> (fst (drv_set_amplitude d (Fin 6.5) s0) = Inr () \<longrightarrow>
            (\<exists>rep. calls (gw ss) = [(SetAmplitude (Fin 6.5), Returned), (SetOutputEn True, rep)]
               \<and> (r = Inr () \<longrightarrow> rep = Returned)))"
proof -
  let ?g0 = "\<lparr>drv = s0, calls = []\<rparr>"
  let ?ss0 = "\<lparr>gw = ?g0, channel = dataset, pushed = [], mydata = []\<rparr>"
  obtain r1 g1 where a: "gw_set_amplitude d (Fin 6.5) ?g0 = (r1, g1)"
    by (cases "gw_set_amplitude d (Fin 6.5) ?g0")
  from gw_set_amplitude_calls [OF a] obtain rep1 where
    c1: "calls g1 = [(SetAmplitude (Fin 6.5), rep1)]"
    and t1: "trace_of r1 [(SetAmplitude (Fin 6.5), rep1)]"
    and ok1: "r1 = Inr () \<longrightarrow> rep1 = Returned"
    and bad1: "\<forall>e. r1 = Inl e \<longrightarrow> rep1 = Raised e"
    and d1: "fst (drv_set_amplitude d (Fin 6.5) s0) = r1" by auto
  show ?thesis
  proof (cases r1)
    case (Inl e)
    with a assms have res: "r = Inl e" "ss = ?ss0\<lparr>gw := g1\<rparr>"
      by (simp_all add: odmr_setup_def Let_def)
    have "trace_of (Inl e :: error + unit) [(SetAmplitude (Fin 6.5), rep1)]"
      using t1 Inl trace_of_retype by blast
    with res c1 bad1 d1 Inl show ?thesis by simp
  next
    case (Inr u)
    obtain r2 g2 where b: "gw_set_output_en d True g1 = (r2, g2)"
      by (cases "gw_set_output_en d True g1")
    from gw_set_output_en_calls [OF b] obtain rep2 where
      c2: "calls g2 = calls g1 @ [(SetOutputEn True, rep2)]"
      and t2: "trace_of r2 [(SetOutputEn True, rep2)]"
      and ok2: "r2 = Inr () \<longrightarrow> rep2 = Returned" by auto
    have res: "r = r2" "ss = ?ss0\<lparr>gw := g2\<rparr>"
      using a b Inr assms by (simp_all add: odmr_setup_def Let_def split: sum.splits)
    have cl: "clean [(SetAmplitude (Fin 6.5), rep1)]" using t1 Inr by simp
    have "trace_of r2 ([(SetAmplitude (Fin 6.5), rep1)] @ [(SetOutputEn True, rep2)])"
      using cl t2 by (rule trace_of_prepend)
    with res c1 c2 ok1 ok2 d1 Inr show ?thesis by simp
  qed
qed

lemma odmr_setup_commands:
  assumes "odmr_setup d s0 dataset = (Inr (), ss)"
  shows "calls (gw ss) = [(SetAmplitude (Fin 6.5), Returned), (SetOutputEn True, Returned)]"
proof -
  note f = odmr_setup_result [OF assms]
  have "fst (drv_set_amplitude d (Fin 6.5) s0) = Inr ()"
  proof (cases "fst (drv_set_amplitude d (Fin 6.5) s0)")
    case (Inl e)
    with f show ?thesis by simp
  next
    case (Inr u)
    then show ?thesis by simp
  qed
  with f show ?thesis by auto
qed

subsection \<open>One iteration\<close>

lemma np_linspace_length:
  assumes "np_linspace start stop num = Inr fs"
  shows "0 \<le> num \<and> length fs = nat num"
  using assms by (auto simp: np_linspace_def Let_def split: if_splits)

lemma np_zeros_length:
  assumes "np_zeros num = Inr zs"
  shows "length zs = nat num"
  using assms by (auto simp: np_zeros_def split: if_splits)

lemma np_stack_pair:
  "length a = length b \<Longrightarrow> np_stack shape1 [a, b] = Inr [a, b]"
  by (simp add: np_stack_def shape1_def)

lemma sweep_iteration_result:
  assumes "sweep_iteration d start stop num_points iterations ss = (r, ss')"
  shows "channel ss' = channel ss
    \<and> (\<exists>new. calls (gw ss') = calls (gw ss) @ new
           \<and> list_all is_loop_command (map fst new) \<and> trace_of r new)
    \<and> (\<forall>e. r = Inl e \<longrightarrow> pushed ss' = pushed ss \<and> mydata ss' = mydata ss)
    \<and> (r = Inr () \<longrightarrow>
         (\<exists>fs counts. np_linspace start stop num_points = Inr fs
            \<and> length counts = nat num_points
            \<and> mydata ss' = mydata ss @ [[map (\<lambda>x. x / 1000000000) fs, counts]]
            \<and> pushed ss' = pushed ss @ [sweep_record start stop num_points iterations (mydata ss')]))"
proof (cases "np_linspace start stop num_points")
  case (Inl e)
  with assms have "r = Inl e" "ss' = ss" by (simp_all add: sweep_iteration_def)
  then show ?thesis by (simp add: trace_of_def)
next
  case fs: (Inr fs)
  note len = np_linspace_length [OF fs]
  then obtain zs where zs: "np_zeros num_points = Inr zs" by (auto simp: np_zeros_def)
  note zlen = np_zeros_length [OF zs]
  obtain r1 g1 where sf: "sweep_frequencies d (List.enumerate 0 fs) zs (gw ss) = (r1, g1)"
    by (cases "sweep_frequencies d (List.enumerate 0 fs) zs (gw ss)")
  from sweep_frequencies_calls [OF sf] obtain new where
    new: "calls g1 = calls (gw ss) @ new" "list_all is_loop_command (map fst new)" "trace_of r1 new"
    and cl: "\<forall>cs. r1 = Inr cs \<longrightarrow> length cs = length zs" by blast
  show ?thesis
  proof (cases r1)
    case (Inl e)
    with assms fs zs sf have res: "r = Inl e" "ss' = ss\<lparr>gw := g1\<rparr>"
      by (simp_all add: sweep_iteration_def)
    have "trace_of (Inl e :: error + unit) new"
      using new(3) Inl trace_of_retype by blast
    with res new show ?thesis by simp
  next
    case (Inr counts)
    with cl zlen len have lc: "length counts = nat num_points" by simp
    then have st: "np_stack shape1 [map (\<lambda>x. x / 1000000000) fs, counts]
        = Inr [map (\<lambda>x. x / 1000000000) fs, counts]"
      using len by (intro np_stack_pair) simp
    have res: "r = Inr ()"
      "ss' = ss\<lparr>gw := g1, mydata := mydata ss @ [[map (\<lambda>x. x / 1000000000) fs, counts]],
         pushed := pushed ss @ [sweep_record start stop num_points iterations
            (mydata ss @ [[map (\<lambda>x. x / 1000000000) fs, counts]])]\<rparr>"
      using assms fs zs sf Inr st by (simp_all add: sweep_iteration_def Let_def)
    have "trace_of (Inr () :: error + unit) new" using new(3) Inr by simp
    with res new lc fs show ?thesis by simp
  qed
qed

subsection \<open>The outer loop\<close>

lemma sweep_loop_invariant:
  assumes "sweep_loop d start stop num_points iterations n ss = (r, ss')"
    and "P ss"
    and "\<And>s r1 s1. P s \<Longrightarrow> sweep_iteration d start stop num_points iterations s = (r1, s1) \<Longrightarrow> P s1"
  shows "P ss'"
  using assms(1,2)
proof (induction n arbitrary: ss)
  case 0
  then show ?case by simp
next
  case (Suc n)
  obtain r1 s1 where it: "sweep_iteration d start stop num_points iterations ss = (r1, s1)"
    by (cases "sweep_iteration d start stop num_points iterations ss")
  have p1: "P s1" using assms(3) [OF Suc.prems(2) it] .
  show ?case
  proof (cases r1)
    case (Inl e)
    with it Suc.prems(1) have "ss' = s1" by simp
    with p1 show ?thesis by simp
  next
    case (Inr u)
    with it Suc.prems(1) have "sweep_loop d start stop num_points iterations n s1 = (r, ss')" by simp
    from Suc.IH [OF this p1] show ?thesis .
  qed
qed

lemma sweep_loop_trace:
  assumes "sweep_loop d start stop num_points iterations n ss = (r, ss')"
    and "clean (calls (gw ss))"
  shows "trace_of r (calls (gw ss'))"
  using assms
proof (induction n arbitrary: ss)
  case 0
  then show ?case by auto
next
  case (Suc n)
  obtain r1 s1 where it: "sweep_iteration d start stop num_points iterations ss = (r1, s1)"
    by (cases "sweep_iteration d start stop num_points iterations ss")
  from sweep_iteration_result [OF it] obtain new where
    new: "calls (gw s1) = calls (gw ss) @ new" "trace_of r1 new" by blast
  show ?case
  proof (cases r1)
    case (Inl e)
    with it Suc.prems(1) have res: "r = Inl e" "ss' = s1" by simp_all
    have "trace_of r1 (calls (gw ss) @ new)"
      using Suc.prems(2) new(2) by (rule trace_of_prepend)
    with res Inl new show ?thesis by simp
  next
    case (Inr u)
    with it Suc.prems(1) have rec: "sweep_loop d start stop num_points iterations n s1 = (r, ss')" by simp
    have "clean (calls (gw s1))" using new Inr Suc.prems(2) by simp
    from Suc.IH [OF rec this] show ?thesis .
  qed
qed

lemma sweep_loop_progress:
  assumes "sweep_loop d start stop num_points iterations n ss = (r, ss')"
  shows "(r = Inr () \<longrightarrow> length (mydata ss') = length (mydata ss) + n)
    \<and> (\<forall>e. r = Inl e \<longrightarrow>
         (\<exists>m ss1. m < n
            \<and> sweep_loop d start stop num_points iterations m ss = (Inr (), ss1)
            \<and> sweep_iteration d start stop num_points iterations ss1 = (Inl e, ss')
            \<and> length (mydata ss') = length (mydata ss) + m))"
  using assms
proof (induction n arbitrary: ss)
  case 0
  then show ?case by auto
next
  case (Suc n)
  obtain r1 s1 where it: "sweep_iteration d start stop num_points iterations ss = (r1, s1)"
    by (cases "sweep_iteration d start stop num_points iterations ss")
  note facts = sweep_iteration_result [OF it]
  show ?case
  proof (cases r1)
    case (Inl e)
    with it Suc.prems have res: "r = Inl e" "ss' = s1" by simp_all
    have "sweep_loop d start stop num_points iterations 0 ss = (Inr (), ss)" by simp
    moreover have "sweep_iteration d start stop num_points iterations ss = (Inl e, ss')"
      using it Inl res by simp
    moreover have "length (mydata ss') = length (mydata ss) + 0"
      using facts Inl res by simp
    ultimately show ?thesis using res by blast
  next
    case (Inr u)
    with it Suc.prems have rec: "sweep_loop d start stop num_points iterations n s1 = (r, ss')" by simp
    have l1: "length (mydata s1) = Suc (length (mydata ss))" using facts Inr by auto
    note ih = Suc.IH [OF rec]
    show ?thesis
    proof (intro conjI impI allI)
      assume "r = Inr ()"
      with ih l1 show "length (mydata ss') = length (mydata ss) + Suc n" by simp
    next
      fix e assume "r = Inl e"
      with ih obtain m ss1 where m: "m < n"
        "sweep_loop d start stop num_points iterations m s1 = (Inr (), ss1)"
        "sweep_iteration d start stop num_points iterations ss1 = (Inl e, ss')"
        "length (mydata ss') = length (mydata s1) + m" by blast
      have "sweep_loop d start stop num_points iterations (Suc m) ss = (Inr (), ss1)"
        using it Inr m(2) by simp
      moreover have "Suc m < Suc n" using m(1) by simp
      moreover have "length (mydata ss') = length (mydata ss) + Suc m" using m(4) l1 by simp
      ultimately show "\<exists>m ss1. m < Suc n
            \<and> sweep_loop d start stop num_points iterations m ss = (Inr (), ss1)
            \<and> sweep_iteration d start stop num_points iterations ss1 = (Inl e, ss')
            \<and> length (mydata ss') = length (mydata ss) + m"
        using m(3) by blast
    qed
  qed
qed

lemma records_of_snoc:
  "records_of start stop num_points iterations (hist @ [a])
     = records_of start stop num_points iterations hist
       @ [sweep_record start stop num_points iterations (hist @ [a])]"
  by (simp add: records_of_def)

lemma records_of_Nil: "records_of start stop num_points iterations [] = []"
  by (simp add: records_of_def)

lemma length_records_of: "length (records_of start stop num_points iterations hist) = length hist"
  by (simp add: records_of_def)

lemma nth_records_of:
  "k < length hist \<Longrightarrow> records_of start stop num_points iterations hist ! k
     = sweep_record start stop num_points iterations (take (Suc k) hist)"
  by (simp add: records_of_def)

lemma history_ok_iteration:
  assumes "history_ok start stop num_points iterations s"
    and "sweep_iteration d start stop num_points iterations s = (r1, s1)"
  shows "history_ok start stop num_points iterations s1"
proof (cases r1)
  case (Inl e)
  with sweep_iteration_result [OF assms(2)] assms(1) show ?thesis
    by (simp add: history_ok_def)
next
  case (Inr u)
  with sweep_iteration_result [OF assms(2)] obtain fs counts where
    f: "np_linspace start stop num_points = Inr fs" "length counts = nat num_points"
    "mydata s1 = mydata s @ [[map (\<lambda>x. x / 1000000000) fs, counts]]"
    "pushed s1 = pushed s @ [sweep_record start stop num_points iterations (mydata s1)]"
    by auto
  have "length fs = nat num_points" using np_linspace_length [OF f(1)] by simp
  with f assms(1) show ?thesis
    by (auto simp: history_ok_def records_of_snoc)
qed

lemma history_ok_loop:
  assumes "sweep_loop d start stop num_points iterations n ss = (r, ss')"
    and "history_ok start stop num_points iterations ss"
  shows "history_ok start stop num_points iterations ss'"
  using assms(1,2) history_ok_iteration
  by (rule sweep_loop_invariant [where P = "history_ok start stop num_points iterations"])

lemma loop_commands_loop:
  assumes "sweep_loop d start stop num_points iterations n ss = (r, ss')"
  shows "\<exists>new. calls (gw ss') = calls (gw ss) @ new \<and> list_all is_loop_command (map fst new)"
proof -
  let ?P = "\<lambda>s. \<exists>new. calls (gw s) = calls (gw ss) @ new \<and> list_all is_loop_command (map fst new)"
  have "?P ss" by simp
  moreover have "?P s1" if "?P s" "sweep_iteration d start stop num_points iterations s = (r1, s1)" for s r1 s1
  proof -
    from that(1) obtain a where a: "calls (gw s) = calls (gw ss) @ a" "list_all is_loop_command (map fst a)"
      by blast
    from sweep_iteration_result [OF that(2)] obtain b where
      b: "calls (gw s1) = calls (gw s) @ b" "list_all is_loop_command (map fst b)" by blast
    have "calls (gw s1) = calls (gw ss) @ (a @ b) \<and> list_all is_loop_command (map fst (a @ b))"
      using a b by simp
    then show ?thesis by blast
  qed
  ultimately show ?thesis
    using sweep_loop_invariant [where P = ?P, OF assms] by blast
qed

section \<open>The whole routine\<close>

lemma odmr_sweep_cases:
  assumes "odmr_sweep d s0 dataset start stop num_points iterations = (r, ss)"
  shows "(\<exists>e. odmr_setup d s0 dataset = (Inl e, ss) \<and> r = Inl e)
     \<or> (\<exists>ss0. odmr_setup d s0 dataset = (Inr (), ss0)
           \<and> sweep_loop d start stop num_points iterations (nat iterations) ss0 = (r, ss))"
proof -
  obtain r0 ss0 where st: "odmr_setup d s0 dataset = (r0, ss0)"
    by (cases "odmr_setup d s0 dataset")
  show ?thesis
  proof (cases r0)
    case (Inl e)
    with st assms show ?thesis by (auto simp: odmr_sweep_def)
  next
    case (Inr u)
    with st assms show ?thesis by (auto simp: odmr_sweep_def)
  qed
qed

lemma history_ok_setup:
  assumes "odmr_setup d s0 dataset = (r, ss)"
  shows "history_ok start stop num_points iterations ss"
  using odmr_setup_result [OF assms] by (simp add: history_ok_def records_of_Nil)

lemma odmr_sweep_history_ok:
  assumes "odmr_sweep d s0 dataset start stop num_points iterations = (r, ss)"
  shows "history_ok start stop num_points iterations ss"
proof -
  from odmr_sweep_cases [OF assms] consider
    e where "odmr_setup d s0 dataset = (Inl e, ss)"
  | ss0 where "odmr_setup d s0 dataset = (Inr (), ss0)"
      "sweep_loop d start stop num_points iterations (nat iterations) ss0 = (r, ss)"
    by blast
  then show ?thesis
  proof cases
    case 1
    then show ?thesis by (rule history_ok_setup)
  next
    case 2
    from history_ok_loop [OF 2(2) history_ok_setup [OF 2(1)]] show ?thesis .
  qed
qed

lemma dict_keys_sweep_record:
  "dict_keys (sweep_record start stop num_points iterations hist)
     = [''params'', ''title'', ''xlabel'', ''ylabel'', ''datasets'']"
  by (simp add: sweep_record_def)

lemma dict_get_sweep_record:
  "dict_get (sweep_record start stop num_points iterations hist) ''datasets''
     = Some (PyDict [(''mydata'', PyList (map PyArray hist))])"
  by (simp add: sweep_record_def)

text \<open>
  C4. A run that completes pushes one record per iteration. The record pushed after
  iteration \<open>k\<close> has the keys \<open>params\<close>, \<open>title\<close>, \<open>xlabel\<close>, \<open>ylabel\<close>, \<open>datasets\<close>, and
  its \<open>datasets['mydata']\<close> holds the first \<open>k\<close> arrays of the history, in order. Every
  array has two rows of \<open>num_points\<close> values, the first row the frequencies in GHz.
\<close>

theorem odmr_sweep_pushes_history:
  assumes "odmr_sweep d s0 dataset start stop num_points iterations = (Inr (), ss)"
  shows "length (pushed ss) = nat iterations
    \<and> length (mydata ss) = nat iterations
    \<and> (\<forall>k. 1 \<le> k \<and> k \<le> nat iterations \<longrightarrow>
          pushed ss ! (k - 1) = sweep_record start stop num_points iterations (take k (mydata ss))
        \<and> dict_keys (pushed ss ! (k - 1)) = [''params'', ''title'', ''xlabel'', ''ylabel'', ''datasets'']
        \<and> dict_get (pushed ss ! (k - 1)) ''datasets''
            = Some (PyDict [(''mydata'', PyList (map PyArray (take k (mydata ss))))])
        \<and> length (take k (mydata ss)) = k)
    \<and> (\<forall>a \<in> set (mydata ss). length a = 2 \<and> (\<forall>row \<in> set a. length row = nat num_points)
          \<and> (\<exists>fs. np_linspace start stop num_points = Inr fs
                \<and> a ! 0 = map (\<lambda>x. x / 1000000000) fs))"
proof -
  from odmr_sweep_cases [OF assms] obtain ss0 where
    st: "odmr_setup d s0 dataset = (Inr (), ss0)"
    and lp: "sweep_loop d start stop num_points iterations (nat iterations) ss0 = (Inr (), ss)"
    by auto
  have "mydata ss0 = []" using odmr_setup_result [OF st] by simp
  with sweep_loop_progress [OF lp] have len: "length (mydata ss) = nat iterations" by simp
  have ok: "history_ok start stop num_points iterations ss"
    using odmr_sweep_history_ok [OF assms] .
  then have p: "pushed ss = records_of start stop num_points iterations (mydata ss)"
    by (simp add: history_ok_def)
  have lenp: "length (pushed ss) = nat iterations"
    using p len by (simp add: length_records_of)
  have rec: "pushed ss ! (k - 1) = sweep_record start stop num_points iterations (take k (mydata ss))"
    if "1 \<le> k" "k \<le> nat iterations" for k
  proof -
    have "k - 1 < length (mydata ss)" using that len by simp
    from nth_records_of [OF this] that p show ?thesis by simp
  qed
  have "\<forall>k. 1 \<le> k \<and> k \<le> nat iterations \<longrightarrow>
          pushed ss ! (k - 1) = sweep_record start stop num_points iterations (take k (mydata ss))
        \<and> dict_keys (pushed ss ! (k - 1)) = [''params'', ''title'', ''xlabel'', ''ylabel'', ''datasets'']
        \<and> dict_get (pushed ss ! (k - 1)) ''datasets''
            = Some (PyDict [(''mydata'', PyList (map PyArray (take k (mydata ss))))])
        \<and> length (take k (mydata ss)) = k"
    using rec len by (simp add: dict_keys_sweep_record dict_get_sweep_record)
  moreover have "\<forall>a \<in> set (mydata ss). length a = 2 \<and> (\<forall>row \<in> set a. length row = nat num_points)
          \<and> (\<exists>fs. np_linspace start stop num_points = Inr fs
                \<and> a ! 0 = map (\<lambda>x. x / 1000000000) fs)"
    using ok unfolding history_ok_def by blast
  ultimately show ?thesis using len lenp by blast
qed

theorem odmr_sweep_pushes_history_witness:
  "fst (odmr_sweep (constant_driver 10) () ''odmr'' 3000000000 4000000000 5 3) = Inr ()
   \<and> length (pushed (snd (odmr_sweep (constant_driver 10) () ''odmr'' 3000000000 4000000000 5 3))) = 3
   \<and> dict_get (pushed (snd (odmr_sweep (constant_driver 10) () ''odmr'' 3000000000 4000000000 5 3)) ! 2)
       ''datasets''
      = Some (PyDict [(''mydata'', PyList (map PyArray
          (take 3 (mydata (snd (odmr_sweep (constant_driver 10) () ''odmr'' 3000000000 4000000000 5 3))))))])
   \<and> map (map length)
       (take 3 (mydata (snd (odmr_sweep (constant_driver 10) () ''odmr'' 3000000000 4000000000 5 3))))
      = [[5, 5], [5, 5], [5, 5]]"
proof -
  let ?run = "odmr_sweep (constant_driver 10) () ''odmr'' 3000000000 4000000000 5 3"
  have ok: "fst ?run = Inr ()" by code_simp
  then have run: "?run = (Inr (), snd ?run)" by (simp add: prod_eq_iff)
  have shapes: "map (map length) (take 3 (mydata (snd ?run))) = [[5, 5], [5, 5], [5, 5]]"
    by code_simp
  from odmr_sweep_pushes_history [OF run] have
    l: "length (pushed (snd ?run)) = nat 3"
    and a: "\<forall>k. 1 \<le> k \<and> k \<le> nat 3 \<longrightarrow>
          dict_get (pushed (snd ?run) ! (k - 1)) ''datasets''
            = Some (PyDict [(''mydata'', PyList (map PyArray (take k (mydata (snd ?run)))))])"
    by blast+
  from a [rule_format, of 3] have
    "dict_get (pushed (snd ?run) ! 2) ''datasets''
            = Some (PyDict [(''mydata'', PyList (map PyArray (take 3 (mydata (snd ?run)))))])"
    by simp
  with ok shapes l show ?thesis by simp
qed

lemma odmr_sweep_trace:
  assumes "odmr_sweep d s0 dataset start stop num_points iterations = (r, ss)"
  shows "trace_of r (calls (gw ss))"
proof -
  from odmr_sweep_cases [OF assms] consider
    e where "odmr_setup d s0 dataset = (Inl e, ss)" "r = Inl e"
  | ss0 where "odmr_setup d s0 dataset = (Inr (), ss0)"
      "sweep_loop d start stop num_points iterations (nat iterations) ss0 = (r, ss)"
    by blast
  then show ?thesis
  proof cases
    case 1
    from odmr_setup_result [OF 1(1)] have "trace_of (Inl e :: error + unit) (calls (gw ss))" by simp
    with 1(2) show ?thesis by simp
  next
    case 2
    from odmr_setup_result [OF 2(1)] have "clean (calls (gw ss0))" by simp
    with sweep_loop_trace [OF 2(2)] show ?thesis .
  qed
qed

lemma loop_commands_filter:
  assumes "list_all is_loop_command cs"
  shows "filter is_set_amplitude cs = [] \<and> filter is_set_output_en cs = []"
  using assms
proof (induction cs)
  case Nil
  then show ?case by simp
next
  case (Cons c cs)
  then show ?case by (cases c) simp_all
qed

lemma odmr_setup_raise:
  assumes "odmr_setup d s0 dataset = (r, ss)"
    and "fst (drv_set_amplitude d (Fin 6.5) s0) = Inl e"
  shows "r = Inl e \<and> calls (gw ss) = [(SetAmplitude (Fin 6.5), Raised e)]"
  using odmr_setup_result [OF assms(1)] assms(2) by blast

lemma odmr_setup_return:
  assumes "odmr_setup d s0 dataset = (r, ss)"
    and "fst (drv_set_amplitude d (Fin 6.5) s0) = Inr ()"
  shows "\<exists>rep. calls (gw ss) = [(SetAmplitude (Fin 6.5), Returned), (SetOutputEn True, rep)]"
  using odmr_setup_result [OF assms(1)] assms(2) by blast

text \<open>
  C7. The first driver call of every run is \<open>set_amplitude(6.5)\<close>, and there is no
  other call of \<open>set_amplitude\<close>. If it raises, the run ends there. If it returns, the
  second call is \<open>set_output_en(True)\<close>, there is no other call of \<open>set_output_en\<close>,
  and every later call is a \<open>set_frequency\<close> or a \<open>cnts\<close>.
\<close>

theorem odmr_sweep_setup_once:
  assumes "odmr_sweep d s0 dataset start stop num_points iterations = (r, ss)"
  shows "(\<exists>rest. commands ss = SetAmplitude (Fin 6.5) # rest
            \<and> ((\<exists>e. fst (drv_set_amplitude d (Fin 6.5) s0) = Inl e) \<longrightarrow> rest = [])
            \<and> (fst (drv_set_amplitude d (Fin 6.5) s0) = Inr () \<longrightarrow>
                 (\<exists>loop. rest = SetOutputEn True # loop \<and> list_all is_loop_command loop)))
     \<and> length (filter is_set_amplitude (commands ss)) = 1
     \<and> (fst (drv_set_amplitude d (Fin 6.5) s0) = Inr () \<longrightarrow>
          length (filter is_set_output_en (commands ss)) = 1)
     \<and> (r = Inr () \<longrightarrow> fst (drv_set_amplitude d (Fin 6.5) s0) = Inr ())"
proof (cases "fst (drv_set_amplitude d (Fin 6.5) s0)")
  case (Inl e)
  have st: "odmr_setup d s0 dataset = (Inl e, ss)" and re: "r = Inl e"
  proof -
    from odmr_sweep_cases [OF assms] consider
      e' where "odmr_setup d s0 dataset = (Inl e', ss)" "r = Inl e'"
    | ss0 where "odmr_setup d s0 dataset = (Inr (), ss0)"
      by blast
    then have "odmr_setup d s0 dataset = (Inl e, ss) \<and> r = Inl e"
    proof cases
      case 1
      from odmr_setup_raise [OF 1(1) Inl] have "e' = e" by blast
      with 1 show ?thesis by blast
    next
      case 2
      from odmr_setup_raise [OF 2 Inl] show ?thesis by blast
    qed
    then show "odmr_setup d s0 dataset = (Inl e, ss)" and "r = Inl e" by blast+
  qed
  from odmr_setup_raise [OF st Inl] have "calls (gw ss) = [(SetAmplitude (Fin 6.5), Raised e)]"
    by blast
  then have c: "commands ss = [SetAmplitude (Fin 6.5)]" by (simp add: commands_def)
  have n: "fst (drv_set_amplitude d (Fin 6.5) s0) \<noteq> Inr ()" unfolding Inl by blast
  have "\<exists>rest. commands ss = SetAmplitude (Fin 6.5) # rest
            \<and> ((\<exists>e. fst (drv_set_amplitude d (Fin 6.5) s0) = Inl e) \<longrightarrow> rest = [])
            \<and> (fst (drv_set_amplitude d (Fin 6.5) s0) = Inr () \<longrightarrow>
                 (\<exists>loop. rest = SetOutputEn True # loop \<and> list_all is_loop_command loop))"
    using c n by blast
  moreover have "length (filter is_set_amplitude (commands ss)) = 1"
    unfolding c by simp
  moreover have "r \<noteq> Inr ()" unfolding re by blast
  ultimately show ?thesis using n by blast
next
  case (Inr u)
  then have ret: "fst (drv_set_amplitude d (Fin 6.5) s0) = Inr ()" by simp
  have "\<exists>loop. commands ss = SetAmplitude (Fin 6.5) # SetOutputEn True # loop
      \<and> list_all is_loop_command loop"
  proof -
    from odmr_sweep_cases [OF assms] consider
      e' where "odmr_setup d s0 dataset = (Inl e', ss)"
    | ss0 where "odmr_setup d s0 dataset = (Inr (), ss0)"
        "sweep_loop d start stop num_points iterations (nat iterations) ss0 = (r, ss)"
      by blast
    then show ?thesis
    proof cases
      case 1
      from odmr_setup_return [OF 1 ret] obtain rep where
        "calls (gw ss) = [(SetAmplitude (Fin 6.5), Returned), (SetOutputEn True, rep)]" by blast
      then have "commands ss = SetAmplitude (Fin 6.5) # SetOutputEn True # []
          \<and> list_all is_loop_command []"
        by (simp add: commands_def)
      then show ?thesis by blast
    next
      case 2
      from loop_commands_loop [OF 2(2)] obtain new where
        new: "calls (gw ss) = calls (gw ss0) @ new" "list_all is_loop_command (map fst new)" by blast
      have "commands ss = SetAmplitude (Fin 6.5) # SetOutputEn True # map fst new"
        unfolding commands_def new(1) odmr_setup_commands [OF 2(1)] by simp
      with new(2) show ?thesis by blast
    qed
  qed
  then obtain loop where l: "commands ss = SetAmplitude (Fin 6.5) # SetOutputEn True # loop"
    "list_all is_loop_command loop" by blast
  note f = loop_commands_filter [OF l(2)]
  have a: "length (filter is_set_amplitude (commands ss)) = 1"
    unfolding l(1) using f by simp
  have b: "length (filter is_set_output_en (commands ss)) = 1"
    unfolding l(1) using f by simp
  have n: "\<not> (\<exists>e. fst (drv_set_amplitude d (Fin 6.5) s0) = Inl e)" unfolding ret by blast
  have "\<exists>rest. commands ss = SetAmplitude (Fin 6.5) # rest
            \<and> ((\<exists>e. fst (drv_set_amplitude d (Fin 6.5) s0) = Inl e) \<longrightarrow> rest = [])
            \<and> (fst (drv_set_amplitude d (Fin 6.5) s0) = Inr () \<longrightarrow>
                 (\<exists>loop. rest = SetOutputEn True # loop \<and> list_all is_loop_command loop))"
    using l n by blast
  with a b ret show ?thesis by blast
qed

theorem odmr_sweep_setup_once_witness:
  "fst (odmr_sweep (constant_driver 10) () ''odmr'' 3000000000 4000000000 2 2) = Inr ()
   \<and> fst (drv_set_amplitude (constant_driver 10) (Fin 6.5) ()) = Inr ()
   \<and> commands (snd (odmr_sweep (constant_driver 10) () ''odmr'' 3000000000 4000000000 2 2))
      = [SetAmplitude (Fin 6.5), SetOutputEn True,
         SetFrequency (Fin 3000000000), Cnts 0.01, SetFrequency (Fin 4000000000), Cnts 0.01,
         SetFrequency (Fin 3000000000), Cnts 0.01, SetFrequency (Fin 4000000000), Cnts 0.01]
   \<and> length (filter is_set_amplitude
        (commands (snd (odmr_sweep (constant_driver 10) () ''odmr'' 3000000000 4000000000 2 2)))) = 1
   \<and> length (filter is_set_output_en
        (commands (snd (odmr_sweep (constant_driver 10) () ''odmr'' 3000000000 4000000000 2 2)))) = 1"
proof -
  let ?run = "odmr_sweep (constant_driver 10) () ''odmr'' 3000000000 4000000000 2 2"
  have ok: "fst ?run = Inr ()" by code_simp
  then have run: "?run = (Inr (), snd ?run)" by (simp add: prod_eq_iff)
  have amp: "fst (drv_set_amplitude (constant_driver 10) (Fin 6.5) ()) = Inr ()"
    by (simp add: constant_driver_def)
  have cmds: "commands (snd ?run)
      = [SetAmplitude (Fin 6.5), SetOutputEn True,
         SetFrequency (Fin 3000000000), Cnts 0.01, SetFrequency (Fin 4000000000), Cnts 0.01,
         SetFrequency (Fin 3000000000), Cnts 0.01, SetFrequency (Fin 4000000000), Cnts 0.01]"
    by code_simp
  from odmr_sweep_setup_once [OF run] amp have
    "length (filter is_set_amplitude (commands (snd ?run))) = 1"
    "length (filter is_set_output_en (commands (snd ?run))) = 1"
    by blast+
  with ok amp cmds show ?thesis by simp
qed

text \<open>
  When \<open>set_amplitude(6.5)\<close> raises, as on an instrument that does not respond,
  \<open>set_output_en\<close> is not called at all.
\<close>

theorem set_output_en_not_called:
  "fst (odmr_sweep (budget_driver 0) 0 ''odmr'' 3000000000 4000000000 5 1)
      = Inl (OtherError ''instrument not responding'')
   \<and> commands (snd (odmr_sweep (budget_driver 0) 0 ''odmr'' 3000000000 4000000000 5 1))
      = [SetAmplitude (Fin 6.5)]
   \<and> length (filter is_set_output_en
        (commands (snd (odmr_sweep (budget_driver 0) 0 ''odmr'' 3000000000 4000000000 5 1)))) = 0"
  by code_simp

text \<open>
  C8. A raise of a driver call is the last call of the run and is what the run raises:
  nothing is called after it. The pushed records are one per array of the history.
  When the run raises \<open>e\<close>, either the setup raised \<open>e\<close> and nothing was pushed, or as
  many iterations completed as there are pushed records, fewer than \<open>iterations\<close>, the
  next iteration raised \<open>e\<close>, and that iteration pushed nothing.
\<close>

theorem odmr_sweep_error_propagates:
  assumes "odmr_sweep d s0 dataset start stop num_points iterations = (r, ss)"
  shows "(\<forall>i e. i < length (calls (gw ss)) \<and> snd (calls (gw ss) ! i) = Raised e \<longrightarrow>
            r = Inl e \<and> Suc i = length (calls (gw ss)))
     \<and> pushed ss = records_of start stop num_points iterations (mydata ss)
     \<and> (\<forall>e. r = Inl e \<longrightarrow>
           (odmr_setup d s0 dataset = (Inl e, ss) \<and> pushed ss = [])
         \<or> (\<exists>ss0 ss1. odmr_setup d s0 dataset = (Inr (), ss0)
               \<and> length (pushed ss) < nat iterations
               \<and> sweep_loop d start stop num_points iterations (length (pushed ss)) ss0 = (Inr (), ss1)
               \<and> sweep_iteration d start stop num_points iterations ss1 = (Inl e, ss)
               \<and> pushed ss = pushed ss1))"
proof -
  note tr = odmr_sweep_trace [OF assms]
  have a: "\<forall>i e. i < length (calls (gw ss)) \<and> snd (calls (gw ss) ! i) = Raised e \<longrightarrow>
            r = Inl e \<and> Suc i = length (calls (gw ss))"
    using trace_of_raise_last [OF tr] by blast
  have ok: "history_ok start stop num_points iterations ss"
    using odmr_sweep_history_ok [OF assms] .
  then have b: "pushed ss = records_of start stop num_points iterations (mydata ss)"
    by (simp add: history_ok_def)
  then have lp: "length (pushed ss) = length (mydata ss)" by (simp add: length_records_of)
  have c: "(odmr_setup d s0 dataset = (Inl e, ss) \<and> pushed ss = [])
         \<or> (\<exists>ss0 ss1. odmr_setup d s0 dataset = (Inr (), ss0)
               \<and> length (pushed ss) < nat iterations
               \<and> sweep_loop d start stop num_points iterations (length (pushed ss)) ss0 = (Inr (), ss1)
               \<and> sweep_iteration d start stop num_points iterations ss1 = (Inl e, ss)
               \<and> pushed ss = pushed ss1)" if r: "r = Inl e" for e
    using odmr_sweep_cases [OF assms]
  proof
    assume "\<exists>e'. odmr_setup d s0 dataset = (Inl e', ss) \<and> r = Inl e'"
    with r have st: "odmr_setup d s0 dataset = (Inl e, ss)" by auto
    from odmr_setup_result [OF st] st show ?thesis by simp
  next
    assume "\<exists>ss0. odmr_setup d s0 dataset = (Inr (), ss0)
        \<and> sweep_loop d start stop num_points iterations (nat iterations) ss0 = (r, ss)"
    then obtain ss0 where ss0: "odmr_setup d s0 dataset = (Inr (), ss0)"
      "sweep_loop d start stop num_points iterations (nat iterations) ss0 = (r, ss)" by blast
    have e0: "mydata ss0 = []" using odmr_setup_result [OF ss0(1)] by simp
    from sweep_loop_progress [OF ss0(2)] r obtain m ss1 where
      m: "m < nat iterations"
      "sweep_loop d start stop num_points iterations m ss0 = (Inr (), ss1)"
      "sweep_iteration d start stop num_points iterations ss1 = (Inl e, ss)"
      "length (mydata ss) = length (mydata ss0) + m" by blast
    have lm: "length (pushed ss) = m" using m(4) e0 lp by simp
    have "pushed ss = pushed ss1" using sweep_iteration_result [OF m(3)] by simp
    with m lm ss0(1) show ?thesis by blast
  qed
  from a b c show ?thesis by blast
qed

theorem odmr_sweep_error_propagates_witness:
  "fst (odmr_sweep (siggen_driver 7) SigGen_init ''odmr'' 9000000000 11000000000 3 2)
      = Inl (ValueError ''Frequency must be in range [100kHz, 10GHz].'')
   \<and> last (calls (gw (snd (odmr_sweep (siggen_driver 7) SigGen_init ''odmr'' 9000000000 11000000000 3 2))))
      = (SetFrequency (Fin 11000000000), Raised (ValueError ''Frequency must be in range [100kHz, 10GHz].''))
   \<and> length (calls (gw (snd (odmr_sweep (siggen_driver 7) SigGen_init ''odmr'' 9000000000 11000000000 3 2)))) = 7
   \<and> pushed (snd (odmr_sweep (siggen_driver 7) SigGen_init ''odmr'' 9000000000 11000000000 3 2)) = []
   \<and> fst (odmr_sweep (budget_driver 8) 0 ''odmr'' 3000000000 4000000000 2 2)
      = Inl (OtherError ''instrument not responding'')
   \<and> pushed (snd (odmr_sweep (budget_driver 8) 0 ''odmr'' 3000000000 4000000000 2 2))
      = records_of 3000000000 4000000000 2 2
          (mydata (snd (odmr_sweep (budget_driver 8) 0 ''odmr'' 3000000000 4000000000 2 2)))
   \<and> mydata (snd (odmr_sweep (budget_driver 8) 0 ''odmr'' 3000000000 4000000000 2 2))
      = [[[3, 4], [3, 5]]]"
proof -
  let ?a = "odmr_sweep (siggen_driver 7) SigGen_init ''odmr'' 9000000000 11000000000 3 2"
  let ?b = "odmr_sweep (budget_driver 8) 0 ''odmr'' 3000000000 4000000000 2 2"
  let ?e = "ValueError ''Frequency must be in range [100kHz, 10GHz].''"
  have ra: "fst ?a = Inl ?e" by code_simp
  then have runa: "?a = (Inl ?e, snd ?a)" by (simp add: prod_eq_iff)
  have la: "last (calls (gw (snd ?a))) = (SetFrequency (Fin 11000000000), Raised ?e)" by code_simp
  have na: "length (calls (gw (snd ?a))) = 7" by code_simp
  have rb: "fst ?b = Inl (OtherError ''instrument not responding'')" by code_simp
  then have runb: "?b = (Inl (OtherError ''instrument not responding''), snd ?b)"
    by (simp add: prod_eq_iff)
  have mb: "mydata (snd ?b) = [[[3, 4], [3, 5]]]" by code_simp
  from odmr_sweep_error_propagates [OF runa] have
    pa: "pushed (snd ?a) = records_of 9000000000 11000000000 3 2 (mydata (snd ?a))" by blast
  have "mydata (snd ?a) = []" by code_simp
  with pa have pa': "pushed (snd ?a) = []" by (simp add: records_of_Nil)
  from odmr_sweep_error_propagates [OF runb] have
    pb: "pushed (snd ?b) = records_of 3000000000 4000000000 2 2 (mydata (snd ?b))" by blast
  from ra la na pa' rb pb mb show ?thesis by simp
qed

section \<open>A driver with a constant count\<close>

lemma gw_set_amplitude_ok:
  assumes "fst (drv_set_amplitude d v (drv g)) = Inr ()"
  shows "\<exists>g'. gw_set_amplitude d v g = (Inr (), g')"
proof (cases "drv_set_amplitude d v (drv g)")
  case (Pair r s)
  with assms have "r = Inr ()" by simp
  with Pair show ?thesis by (simp add: gw_set_amplitude_def)
qed

lemma gw_set_output_en_ok:
  assumes "fst (drv_set_output_en d b (drv g)) = Inr ()"
  shows "\<exists>g'. gw_set_output_en d b g = (Inr (), g')"
proof (cases "drv_set_output_en d b (drv g)")
  case (Pair r s)
  with assms have "r = Inr ()" by simp
  with Pair show ?thesis by (simp add: gw_set_output_en_def)
qed

lemma gw_set_frequency_ok:
  assumes "fst (drv_set_frequency d v (drv g)) = Inr ()"
  shows "\<exists>g'. gw_set_frequency d v g = (Inr (), g')"
proof (cases "drv_set_frequency d v (drv g)")
  case (Pair r s)
  with assms have "r = Inr ()" by simp
  with Pair show ?thesis by (simp add: gw_set_frequency_def)
qed

lemma gw_cnts_ok:
  assumes "fst (drv_cnts d t (drv g)) = Inr c"
  shows "\<exists>g'. gw_cnts d t g = (Inr c, g')"
proof (cases "drv_cnts d t (drv g)")
  case (Pair r s)
  with assms have "r = Inr c" by simp
  with Pair show ?thesis by (simp add: gw_cnts_def)
qed

lemma sweep_frequencies_constant:
  assumes sf: "\<And>v s. fst (drv_set_frequency d v s) = Inr ()"
    and cn: "\<And>t s. fst (drv_cnts d t s) = Inr c"
  shows "\<exists>cs g'. sweep_frequencies d (List.enumerate k fs) counts g = (Inr cs, g')
     \<and> length cs = length counts
     \<and> (\<forall>i < length counts. cs ! i = (if k \<le> i \<and> i < k + length fs then c else counts ! i))"
proof (induction fs arbitrary: k counts g)
  case Nil
  then show ?case by simp
next
  case (Cons f fs)
  obtain g1 where g1: "gw_set_frequency d (Fin f) g = (Inr (), g1)"
    using gw_set_frequency_ok [OF sf] by blast
  obtain g2 where g2: "gw_cnts d 0.01 g1 = (Inr c, g2)"
    using gw_cnts_ok [OF cn] by blast
  from Cons.IH [of "Suc k" "counts[k := c]" g2] obtain cs g' where
    r: "sweep_frequencies d (List.enumerate (Suc k) fs) (counts[k := c]) g2 = (Inr cs, g')"
    and l: "length cs = length counts"
    and n: "\<forall>i < length counts. cs ! i
        = (if Suc k \<le> i \<and> i < Suc k + length fs then c else counts[k := c] ! i)"
    by auto
  have "sweep_frequencies d (List.enumerate k (f # fs)) counts g = (Inr cs, g')"
    using g1 g2 r by simp
  moreover have "\<forall>i < length counts. cs ! i
        = (if k \<le> i \<and> i < k + length (f # fs) then c else counts ! i)"
  proof (intro allI impI)
    fix i assume i: "i < length counts"
    show "cs ! i = (if k \<le> i \<and> i < k + length (f # fs) then c else counts ! i)"
    proof (cases "i = k")
      case True
      with n i show ?thesis by simp
    next
      case False
      with n i show ?thesis by auto
    qed
  qed
  ultimately show ?case using l by blast
qed

lemma sweep_iteration_constant:
  assumes sf: "\<And>v s. fst (drv_set_frequency d v s) = Inr ()"
    and cn: "\<And>t s. fst (drv_cnts d t s) = Inr c"
    and fs: "np_linspace start stop num_points = Inr fs"
  shows "\<exists>ss'. sweep_iteration d start stop num_points iterations ss = (Inr (), ss')
     \<and> mydata ss' = mydata ss @ [[map (\<lambda>x. x / 1000000000) fs, replicate (nat num_points) c]]
     \<and> pushed ss' = pushed ss @ [sweep_record start stop num_points iterations (mydata ss')]"
proof -
  note len = np_linspace_length [OF fs]
  then have zs: "np_zeros num_points = Inr (replicate (nat num_points) 0)"
    by (simp add: np_zeros_def)
  from sweep_frequencies_constant [OF sf cn, of 0 fs "replicate (nat num_points) 0" "gw ss"]
  obtain cs g' where
    r: "sweep_frequencies d (List.enumerate 0 fs) (replicate (nat num_points) 0) (gw ss) = (Inr cs, g')"
    and l: "length cs = nat num_points"
    and n: "\<forall>i < nat num_points. cs ! i = (if i < length fs then c else replicate (nat num_points) 0 ! i)"
    by auto
  have cs: "cs = replicate (nat num_points) c"
    using l n len by (intro nth_equalityI) simp_all
  have st: "np_stack shape1 [map (\<lambda>x. x / 1000000000) fs, cs] = Inr [map (\<lambda>x. x / 1000000000) fs, cs]"
    using l len by (intro np_stack_pair) simp
  have "sweep_iteration d start stop num_points iterations ss
      = (Inr (), ss\<lparr>gw := g', mydata := mydata ss @ [[map (\<lambda>x. x / 1000000000) fs, cs]],
           pushed := pushed ss @ [sweep_record start stop num_points iterations
             (mydata ss @ [[map (\<lambda>x. x / 1000000000) fs, cs]])]\<rparr>)"
    using fs zs r st by (simp add: sweep_iteration_def Let_def)
  with cs show ?thesis by simp
qed

lemma odmr_setup_ok:
  assumes sa: "\<And>v s. fst (drv_set_amplitude d v s) = Inr ()"
    and so: "\<And>b s. fst (drv_set_output_en d b s) = Inr ()"
  shows "\<exists>ss. odmr_setup d s0 dataset = (Inr (), ss) \<and> pushed ss = [] \<and> mydata ss = []"
proof -
  obtain g1 where g1: "gw_set_amplitude d (Fin 6.5) \<lparr>drv = s0, calls = []\<rparr> = (Inr (), g1)"
    using gw_set_amplitude_ok [OF sa] by blast
  obtain g2 where g2: "gw_set_output_en d True g1 = (Inr (), g2)"
    using gw_set_output_en_ok [OF so] by blast
  show ?thesis using g1 g2 by (simp add: odmr_setup_def Let_def)
qed

text \<open>
  C5. Against a driver whose setters return and whose \<open>cnts\<close> returns 10 whatever its
  state, \<open>odmr_sweep('odmr', 3e9, 4e9, 5, 1)\<close> completes and pushes one record, whose
  \<open>datasets['mydata']\<close> holds the single array of the frequencies in GHz and the counts.
\<close>

theorem odmr_sweep_constant_example:
  assumes "\<And>v s. fst (drv_set_amplitude d v s) = Inr ()"
    and "\<And>b s. fst (drv_set_output_en d b s) = Inr ()"
    and "\<And>v s. fst (drv_set_frequency d v s) = Inr ()"
    and "\<And>t s. fst (drv_cnts d t s) = Inr 10"
  shows "fst (odmr_sweep d s0 ''odmr'' 3000000000 4000000000 5 1) = Inr ()
    \<and> pushed (snd (odmr_sweep d s0 ''odmr'' 3000000000 4000000000 5 1))
        = [sweep_record 3000000000 4000000000 5 1 [[[3.0, 3.25, 3.5, 3.75, 4.0], [10, 10, 10, 10, 10]]]]
    \<and> map (\<lambda>rec. dict_get rec ''datasets'') (pushed (snd (odmr_sweep d s0 ''odmr'' 3000000000 4000000000 5 1)))
        = [Some (PyDict [(''mydata'',
             PyList [PyArray [[3.0, 3.25, 3.5, 3.75, 4.0], [10, 10, 10, 10, 10]]])])]"
proof -
  obtain ss0 where ss0: "odmr_setup d s0 ''odmr'' = (Inr (), ss0)" "pushed ss0 = []" "mydata ss0 = []"
    using odmr_setup_ok [OF assms(1,2)] by blast
  have fs: "np_linspace 3000000000 4000000000 5
      = Inr [3000000000, 3250000000, 3500000000, 3750000000, 4000000000]"
    by (simp add: np_linspace_def Let_def upt_rec)
  from sweep_iteration_constant [OF assms(3,4) fs, of 1 ss0] obtain ss where
    it: "sweep_iteration d 3000000000 4000000000 5 1 ss0 = (Inr (), ss)"
    and md: "mydata ss = mydata ss0 @ [[map (\<lambda>x. x / 1000000000)
          [3000000000, 3250000000, 3500000000, 3750000000, 4000000000], replicate (nat 5) 10]]"
    and pu: "pushed ss = pushed ss0 @ [sweep_record 3000000000 4000000000 5 1 (mydata ss)]"
    by blast
  have arr: "mydata ss = [[[3.0, 3.25, 3.5, 3.75, 4.0], [10, 10, 10, 10, 10]]]"
    unfolding md ss0(3) by (simp add: numeral_eq_Suc)
  have run: "odmr_sweep d s0 ''odmr'' 3000000000 4000000000 5 1 = (Inr (), ss)"
    using ss0(1) it by (simp add: odmr_sweep_def)
  have p: "pushed ss = [sweep_record 3000000000 4000000000 5 1
      [[[3.0, 3.25, 3.5, 3.75, 4.0], [10, 10, 10, 10, 10]]]]"
    unfolding pu ss0(2) arr by simp
  show ?thesis unfolding run using p by (simp add: dict_get_sweep_record)
qed

theorem odmr_sweep_constant_example_witness:
  "fst (drv_set_amplitude (constant_driver 10) (Fin 6.5) ()) = Inr ()
   \<and> fst (drv_set_output_en (constant_driver 10) True ()) = Inr ()
   \<and> fst (drv_set_frequency (constant_driver 10) (Fin 3250000000) ()) = Inr ()
   \<and> fst (drv_cnts (constant_driver 10) 0.01 ()) = Inr 10
   \<and> fst (odmr_sweep (constant_driver 10) () ''odmr'' 3000000000 4000000000 5 1) = Inr ()
   \<and> pushed (snd (odmr_sweep (constant_driver 10) () ''odmr'' 3000000000 4000000000 5 1))
        = [sweep_record 3000000000 4000000000 5 1 [[[3.0, 3.25, 3.5, 3.75, 4.0], [10, 10, 10, 10, 10]]]]"
proof -
  have a: "\<And>v s. fst (drv_set_amplitude (constant_driver 10) v s) = Inr ()"
    and b: "\<And>b s. fst (drv_set_output_en (constant_driver 10) b s) = Inr ()"
    and c: "\<And>v s. fst (drv_set_frequency (constant_driver 10) v s) = Inr ()"
    and d: "\<And>t s. fst (drv_cnts (constant_driver 10) t s) = Inr 10"
    by (simp_all add: constant_driver_def)
  from odmr_sweep_constant_example [OF a b c d, of "()"] a b c d show ?thesis by blast
qed

section \<open>A sweep of one point\<close>









section \<open>The plot widget\<close>








end
